theory Spec2Isabelle
  imports Main
begin

section \<open>Python values, dictionaries and messages\<close>

text \<open>
  The values that the MQTT container stores in metadata dictionaries and keyword
  arguments: \<open>None\<close>, booleans, integers and strings.
\<close>

datatype pyval = VNone | VBool bool | VInt int | VStr string

text \<open>Python truthiness, as used by \<open>if x\<close> and \<open>not x\<close>.\<close>

fun truthy :: "pyval \<Rightarrow> bool" where
  "truthy VNone = False"
| "truthy (VBool b) = b"
| "truthy (VInt i) = (i \<noteq> 0)"
| "truthy (VStr s) = (s \<noteq> [])"

text \<open>
  A Python \<open>dict\<close> keeps its keys in insertion order, and the container iterates over
  two of its dictionaries, so a dictionary is an association list. Assigning to a key
  that is present keeps its position; a new key goes to the end.
\<close>

type_synonym ('k, 'v) dict = "('k \<times> 'v) list"

fun dict_set :: "('k, 'v) dict \<Rightarrow> 'k \<Rightarrow> 'v \<Rightarrow> ('k, 'v) dict" where
  "dict_set [] k v = [(k, v)]"
| "dict_set ((k', v') # d) k v =
     (if k' = k then (k, v) # d else (k', v') # dict_set d k v)"

definition dict_get :: "('k, 'v) dict \<Rightarrow> 'k \<Rightarrow> 'v \<Rightarrow> 'v" where
  "dict_get d k dflt = (case map_of d k of None \<Rightarrow> dflt | Some v \<Rightarrow> v)"

definition dict_update :: "('k, 'v) dict \<Rightarrow> ('k, 'v) dict \<Rightarrow> ('k, 'v) dict" where
  "dict_update d e = fold (\<lambda>(k, v) acc. dict_set acc k v) e d"

definition dict_pop :: "('k, 'v) dict \<Rightarrow> 'k \<Rightarrow> ('k, 'v) dict" where
  "dict_pop d k = filter (\<lambda>(k', v). k' \<noteq> k) d"

definition dict_keys :: "('k, 'v) dict \<Rightarrow> 'k set" where
  "dict_keys d = fst ` set d"

type_synonym meta = "(string, pyval) dict"

text \<open>
  A message object. \<open>MEnvelope inner msg_meta\<close> is an object with the method
  \<open>split_content_and_meta\<close> (an \<open>ACLMessage\<close>): the method returns
  \<open>(inner, msg_meta)\<close>, \<open>extract_meta\<close> returns \<open>msg_meta\<close> and the attribute
  \<open>content\<close> is \<open>inner\<close>. \<open>MPlain\<close> is any other object, without that method, and
  \<open>MNone\<close> is \<open>None\<close>.
\<close>

datatype message = MNone | MPlain string | MEnvelope message meta

text \<open>
  The step shared by \<open>_handle_msg\<close> and \<open>send_message\<close>: when the object has the
  method \<open>split_content_and_meta\<close>, its result replaces the content and updates the
  metadata; any other object is kept whole.
\<close>

fun split_content_and_meta :: "message \<Rightarrow> meta \<Rightarrow> message \<times> meta" where
  "split_content_and_meta (MEnvelope inner msg_meta) meta = (inner, dict_update meta msg_meta)"
| "split_content_and_meta m meta = (m, meta)"

text \<open>The classes that can be bound to a topic with \<open>expected_class\<close>.\<close>

datatype msg_class = ACLMessageClass | OtherClass string

datatype error =
    ValueError | KeyError | AttributeError | InvalidStateError
  | CancelledError | CodecError string | UserError string

text \<open>
  A coroutine call either raises, returns, or suspends at \<open>await\<close> on the future with
  the given number.
\<close>

datatype 'a outcome = Raise error | Return 'a | Await nat

section \<open>The MQTT container\<close>

type_synonym aid = string
type_synonym topic = string

text \<open>An \<open>asyncio.Future\<close>: pending, or done with a result.\<close>

datatype fut_state = FPending | FDone pyval

text \<open>
  The receiver address of \<open>send_message\<close> has type \<open>Union[str, Tuple[str, int]]\<close>.
\<close>

datatype address = Topic string | HostPort string int

text \<open>The calls made on the paho client, in the order they are made.\<close>

datatype broker_call =
    Subscribe topic int
  | Unsubscribe topic
  | Publish address string

text \<open>
  The callbacks handed to \<open>loop.call_soon_threadsafe\<close> by the broker thread:
  \<open>inbox.put_nowait\<close> of a tuple, and \<open>set_result\<close> of a future.
\<close>

datatype callback =
    PutNowait "int \<times> message \<times> meta"
  | SetResult nat pyval

text \<open>
  The fields of \<open>MQTTContainer\<close>. \<open>agents\<close> is the key set of \<open>self._agents\<close>: the
  dictionary maps each registered aid to the agent object created under that aid, and
  agent objects live in a heap indexed by aid (section on agents below). \<open>futures\<close>
  holds every future the container has created, \<open>pending_sub_request\<close> is an index
  into it. \<open>broker_calls\<close> records the calls on \<open>self.mqtt_client\<close>, \<open>posted\<close> the
  callbacks waiting in the event loop, \<open>warnings\<close> the logged warnings.
  \<open>addr\<close> and \<open>running\<close> are fields of the base class \<open>Container\<close>.
\<close>

record container =
  addr :: "string option"
  inbox_topic :: "string option"
  running :: bool
  agents :: "aid set"
  additional_subscriptions :: "(topic, aid set) dict"
  subscriptions_to_class :: "(topic, msg_class) dict"
  pending_sub_request :: "nat option"
  futures :: "fut_state list"
  inbox :: "(int \<times> message \<times> meta) list"
  broker_calls :: "broker_call list"
  posted :: "callback list"
  warnings :: "string list"

text \<open>\<open>MQTTContainer.__init__\<close>, with the base class storing \<open>addr\<close>.\<close>

definition init_container :: "string option \<Rightarrow> container" where
  "init_container a =
     \<lparr> addr = a, inbox_topic = a, running = True, agents = {},
       additional_subscriptions = [], subscriptions_to_class = [],
       pending_sub_request = None, futures = [], inbox = [],
       broker_calls = [], posted = [], warnings = [] \<rparr>"

text \<open>
  Modelled from the spec: \<open>Container._register_agent\<close> of the base class, which is
  not part of the sources. The spec says that registering "allocates an identifier,
  stores the agent, returns the ID"; the identifier chosen is a parameter here.
\<close>

definition register_agent :: "container \<Rightarrow> aid \<Rightarrow> container" where
  "register_agent c a = c\<lparr>agents := insert a (agents c)\<rparr>"

text \<open>
  Modelled from the spec: \<open>Container.deregister_agent\<close> of the base class, which is
  not part of the sources. The spec says that it "removes the agent from the registry".
\<close>

definition super_deregister_agent :: "container \<Rightarrow> aid \<Rightarrow> container" where
  "super_deregister_agent c a = c\<lparr>agents := agents c - {a}\<rparr>"

definition MQTT_ERR_SUCCESS :: int where
  "MQTT_ERR_SUCCESS = 0"

text \<open>
  \<open>Future.set_result\<close>: raises \<open>InvalidStateError\<close> on a future that is done.
\<close>

definition set_result :: "fut_state list \<Rightarrow> nat \<Rightarrow> pyval \<Rightarrow> error + fut_state list" where
  "set_result fs f v =
     (if f < length fs \<and> fs ! f = FPending then Inr (fs[f := FDone v])
      else Inl InvalidStateError)"

text \<open>
  \<open>subscribe_for_agent\<close>, up to its only suspension point. \<open>rc\<close> is the return code
  that \<open>mqtt_client.subscribe\<close> gives to this call. The outcome \<open>Await f\<close> stands for
  the coroutine suspended in \<open>await self.pending_sub_request\<close> on the future \<open>f\<close> it
  has just created.
\<close>

definition subscribe_for_agent ::
  "container \<Rightarrow> aid \<Rightarrow> topic \<Rightarrow> int \<Rightarrow> msg_class option \<Rightarrow> int \<Rightarrow> bool outcome \<times> container" where
  "subscribe_for_agent c a t qos expected_class rc =
     (if a \<notin> agents c then (Raise ValueError, c)
      else
        let c1 = (case expected_class of
                    None \<Rightarrow> c
                  | Some cls \<Rightarrow>
                      c\<lparr>subscriptions_to_class := dict_set (subscriptions_to_class c) t cls\<rparr>)
        in case map_of (additional_subscriptions c1) t of
             Some A \<Rightarrow>
               (Return True,
                c1\<lparr>additional_subscriptions :=
                     dict_set (additional_subscriptions c1) t (insert a A)\<rparr>)
           | None \<Rightarrow>
               let f = length (futures c1);
                   c2 = c1\<lparr>additional_subscriptions :=
                             dict_set (additional_subscriptions c1) t {a},
                           futures := futures c1 @ [FPending],
                           pending_sub_request := Some f,
                           broker_calls := broker_calls c1 @ [Subscribe t qos]\<rparr>
               in if rc \<noteq> MQTT_ERR_SUCCESS
                  then (Return False, c2\<lparr>futures := (futures c2)[f := FDone (VBool False)]\<rparr>)
                  else (Await f, c2))"

text \<open>
  The rest of \<open>subscribe_for_agent\<close> after the \<open>await\<close>: the coroutine is resumed once
  the awaited future is done, and returns \<open>True\<close>. While the future is pending the
  coroutine stays suspended (\<open>None\<close>).
\<close>

definition subscribe_for_agent_resume :: "container \<Rightarrow> nat \<Rightarrow> bool option" where
  "subscribe_for_agent_resume c f =
     (if f < length (futures c) \<and> futures c ! f \<noteq> FPending then Some True else None)"

text \<open>
  \<open>on_sub\<close>, run by the broker thread at a subscribe acknowledgment: it reads
  \<open>self.pending_sub_request\<close> and posts its \<open>set_result\<close> with the result 0.
\<close>

definition on_sub :: "container \<Rightarrow> error + container" where
  "on_sub c =
     (case pending_sub_request c of
        None \<Rightarrow> Inl AttributeError
      | Some f \<Rightarrow> Inr (c\<lparr>posted := posted c @ [SetResult f (VInt 0)]\<rparr>))"

text \<open>
  The event loop runs the oldest posted callback and takes it off its queue. An
  exception of the callback goes to the loop's exception handler and is returned here.
  With nothing posted the state stays as it is.
\<close>

definition run_posted :: "container \<Rightarrow> error option \<times> container" where
  "run_posted c =
     (case posted c of
        [] \<Rightarrow> (None, c)
      | PutNowait item # rest \<Rightarrow> (None, c\<lparr>posted := rest, inbox := inbox c @ [item]\<rparr>)
      | SetResult f v # rest \<Rightarrow>
          (case set_result (futures c) f v of
             Inl e \<Rightarrow> (Some e, c\<lparr>posted := rest\<rparr>)
           | Inr fs \<Rightarrow> (None, c\<lparr>posted := rest, futures := fs\<rparr>)))"

text \<open>\<open>set_expected_class\<close>.\<close>

definition set_expected_class :: "container \<Rightarrow> topic \<Rightarrow> msg_class \<Rightarrow> container" where
  "set_expected_class c t cls =
     c\<lparr>subscriptions_to_class := dict_set (subscriptions_to_class c) t cls\<rparr>"

text \<open>
  \<open>deregister_agent\<close>: the first loop removes the aid from every set and collects the
  topics whose set is empty, the second loop pops each of them and unsubscribes.
\<close>

definition unsubscribe_empty :: "topic \<Rightarrow> container \<Rightarrow> container" where
  "unsubscribe_empty s c =
     c\<lparr>additional_subscriptions := dict_pop (additional_subscriptions c) s,
       broker_calls := broker_calls c @ [Unsubscribe s]\<rparr>"

definition deregister_agent :: "container \<Rightarrow> aid \<Rightarrow> container" where
  "deregister_agent c a =
     (let c1 = super_deregister_agent c a;
          subs = map (\<lambda>(s, A). (s, A - {a})) (additional_subscriptions c1);
          empty_subscriptions = map fst (filter (\<lambda>(s, A). A = {}) subs)
      in fold unsubscribe_empty empty_subscriptions (c1\<lparr>additional_subscriptions := subs\<rparr>))"




text \<open>The loop of \<open>decode_mqtt_msg\<close> over the class bindings, left at the first match.\<close>

fun first_matching_class ::
  "(topic \<Rightarrow> topic \<Rightarrow> bool) \<Rightarrow> (topic, msg_class) dict \<Rightarrow> topic \<Rightarrow> msg_class option" where
  "first_matching_class matches [] t = None"
| "first_matching_class matches ((sub, sub_class) # rest) t =
     (if matches sub t then Some sub_class else first_matching_class matches rest t)"

text \<open>
  \<open>decode_mqtt_msg\<close>. \<open>decode\<close> is \<open>self.codec.decode\<close>. The local \<open>content\<close> is an
  instance of the bound class or \<open>None\<close>; it is an \<open>ACLMessage\<close> exactly when the
  bound class is \<open>ACLMessageClass\<close>. In that branch \<open>decoded.extract_meta()\<close> needs an
  envelope, and the assignment to \<open>content\<close> has no effect on what is returned, which is
  \<open>decoded\<close> and \<open>meta\<close>.
\<close>

definition decode_mqtt_msg ::
  "(topic \<Rightarrow> topic \<Rightarrow> bool) \<Rightarrow> (string \<Rightarrow> error + message) \<Rightarrow> container \<Rightarrow> topic \<Rightarrow> string
     \<Rightarrow> error + (message \<times> meta)" where
  "decode_mqtt_msg matches decode c t payload =
     (let content = first_matching_class matches (subscriptions_to_class c) t
      in case decode payload of
           Inl e \<Rightarrow> Inl e
         | Inr decoded \<Rightarrow>
             if content = Some ACLMessageClass
             then (case decoded of
                     MEnvelope inner msg_meta \<Rightarrow> Inr (decoded, msg_meta)
                   | _ \<Rightarrow> Inl AttributeError)
             else Inr (decoded, []))"

text \<open>
  \<open>on_msg\<close>, run by the broker thread for a message with the given topic, payload,
  qos and retain flag.
\<close>

definition on_msg ::
  "(topic \<Rightarrow> topic \<Rightarrow> bool) \<Rightarrow> (string \<Rightarrow> error + message) \<Rightarrow> container
     \<Rightarrow> topic \<Rightarrow> string \<Rightarrow> int \<Rightarrow> bool \<Rightarrow> error + container" where
  "on_msg matches decode c t payload qos retain =
     (let meta = [(''network_protocol'', VStr ''mqtt''), (''topic'', VStr t),
                  (''qos'', VInt qos), (''retain'', VBool retain)]
      in case decode_mqtt_msg matches decode c t payload of
           Inl e \<Rightarrow> Inl e
         | Inr (msg_content, msg_meta) \<Rightarrow>
             let meta1 = dict_update meta msg_meta
             in if msg_content \<noteq> MNone
                then Inr (c\<lparr>posted := posted c @ [PutNowait (0, msg_content, meta1)]\<rparr>)
                else Inr c)"

text \<open>\<open>_send_external_message\<close>; \<open>encode\<close> is \<open>self.codec.encode\<close>.\<close>

definition send_external_message ::
  "(message \<Rightarrow> error + string) \<Rightarrow> container \<Rightarrow> address \<Rightarrow> message \<Rightarrow> error + container" where
  "send_external_message encode c t m =
     (case encode m of
        Inl e \<Rightarrow> Inl e
      | Inr encoded_msg \<Rightarrow> Inr (c\<lparr>broker_calls := broker_calls c @ [Publish t encoded_msg]\<rparr>))"

text \<open>
  \<open>send_message\<close>, in three parts. First the two deprecation warnings. Then the
  options: \<open>kwargs\<close> collects the extra keyword arguments of the call and is a
  dictionary in every call, so the test \<open>kwargs is None\<close> is made on \<open>Some kwargs\<close>.
  Then the body; \<open>create_acl_msg\<close> is \<open>self._create_acl\<close> of the base class, which
  the sources do not contain.
\<close>

definition warn_deprecated :: "container \<Rightarrow> bool option \<Rightarrow> meta option \<Rightarrow> meta option \<Rightarrow> container" where
  "warn_deprecated c create_acl acl_metadata mqtt_kwargs =
     (let c1 = (if create_acl \<noteq> None \<or> acl_metadata \<noteq> None
                then c\<lparr>warnings := warnings c @ [''create_acl and acl_metadata are deprecated'']\<rparr>
                else c)
      in if mqtt_kwargs \<noteq> None
         then c1\<lparr>warnings := warnings c1 @ [''mqtt_kwargs is deprecated'']\<rparr>
         else c1)"

definition actual_mqtt_kwargs :: "meta option \<Rightarrow> meta \<Rightarrow> meta" where
  "actual_mqtt_kwargs mqtt_kwargs kwargs =
     (let kwargs_obj = Some kwargs;
          actual = (if kwargs_obj = None then mqtt_kwargs else kwargs_obj)
      in case actual of None \<Rightarrow> [] | Some d \<Rightarrow> d)"

definition send_message ::
  "(message \<Rightarrow> address \<Rightarrow> string option \<Rightarrow> meta option \<Rightarrow> message) \<Rightarrow> (message \<Rightarrow> error + string)
     \<Rightarrow> container \<Rightarrow> message \<Rightarrow> address \<Rightarrow> string option \<Rightarrow> bool option \<Rightarrow> meta option
     \<Rightarrow> meta option \<Rightarrow> meta \<Rightarrow> error + (bool \<times> container)" where
  "send_message create_acl_msg encode c content receiver_addr receiver_id create_acl
       acl_metadata mqtt_kwargs kwargs =
     (let c2 = warn_deprecated c create_acl acl_metadata mqtt_kwargs;
          message = (if create_acl = Some True
                     then create_acl_msg content receiver_addr receiver_id acl_metadata
                     else content);
          actual = actual_mqtt_kwargs mqtt_kwargs kwargs
      in if (case addr c2 of None \<Rightarrow> False | Some a \<Rightarrow> a \<noteq> [] \<and> receiver_addr = Topic a)
            \<and> \<not> truthy (dict_get actual ''retain'' (VBool False))
         then
           let meta = [(''topic'', VStr (the (addr c2))),
                       (''qos'', dict_get actual ''qos'' (VInt 0)),
                       (''retain'', VBool False),
                       (''network_protocol'', VStr ''mqtt'')];
               (content1, meta1) = split_content_and_meta message meta
           in Inr (True, c2\<lparr>inbox := inbox c2 @ [(0, content1, meta1)]\<rparr>)
         else (case send_external_message encode c2 receiver_addr message of
                 Inl e \<Rightarrow> Inl e
               | Inr c3 \<Rightarrow> Inr (True, c3)))"

section \<open>Agents\<close>

text \<open>
  An \<open>asyncio.Task\<close>: not finished, cancelled, finished with an exception, or finished
  with a normal return.
\<close>

datatype task_state = TaskPending | TaskCancelled | TaskFailed error | TaskDone

text \<open>
  The fields of \<open>Agent\<close>. \<open>done_callback\<close> tells whether \<open>raise_exceptions\<close> is attached
  to the task, \<open>stopped\<close> whether the future \<open>self.stopped\<close> is done. \<open>handled\<close> records
  the calls of the user's \<open>handle_msg\<close> that returned. \<open>scheduled_tasks\<close> and
  \<open>scheduler_stop_calls\<close> are the state of \<open>self._scheduler\<close>: its tasks and the number of
  times its \<open>stop\<close> has been called.
\<close>

record agent =
  agent_inbox :: "(int \<times> message \<times> meta) list"
  check_inbox_task :: task_state
  done_callback :: bool
  stopped :: bool
  handled :: "(message \<times> meta) list"
  scheduled_tasks :: "task_state list"
  scheduler_stop_calls :: nat
  agent_log :: "string list"

text \<open>\<open>Agent.__init__\<close>, after the registration with the container.\<close>

definition init_agent :: agent where
  "init_agent =
     \<lparr> agent_inbox = [], check_inbox_task = TaskPending, done_callback = True,
       stopped = False, handled = [], scheduled_tasks = [], scheduler_stop_calls = 0,
       agent_log = [''Agent starts running''] \<rparr>"

text \<open>
  The container, the agent objects by aid, and the exceptions that reached the
  exception handler of the event loop.
\<close>

record world =
  cont :: container
  heap :: "aid \<Rightarrow> agent"
  loop_exceptions :: "error list"




text \<open>
  The operations that change a container, and the states they reach from a new
  container. An operation that raises leaves the state it had reached.
\<close>

datatype op =
    Register aid
  | SubscribeForAgent aid topic int "msg_class option" int
  | DeregisterAgent aid
  | SetExpectedClass topic msg_class
  | OnSub
  | RunPosted

fun apply_op :: "op \<Rightarrow> container \<Rightarrow> container" where
  "apply_op (Register a) c = register_agent c a"
| "apply_op (SubscribeForAgent a t qos cls rc) c = snd (subscribe_for_agent c a t qos cls rc)"
| "apply_op (DeregisterAgent a) c = deregister_agent c a"
| "apply_op (SetExpectedClass t cls) c = set_expected_class c t cls"
| "apply_op OnSub c = (case on_sub c of Inl e \<Rightarrow> c | Inr c' \<Rightarrow> c')"
| "apply_op RunPosted c = snd (run_posted c)"

definition run :: "container \<Rightarrow> op list \<Rightarrow> container" where
  "run c ops = fold apply_op ops c"

text \<open>
  A call of \<open>subscribe_for_agent\<close> run to its end: when the call suspends, the broker
  acknowledges (\<open>on_sub\<close>), the event loop runs what is posted, and the coroutine is
  resumed. \<open>Await f\<close> is left as the outcome when the future is still pending then.
\<close>

definition drain_posted :: "container \<Rightarrow> container" where
  "drain_posted c = fold (\<lambda>cb c'. snd (run_posted c')) (posted c) c"

definition subscribe_and_wait ::
  "container \<Rightarrow> aid \<Rightarrow> topic \<Rightarrow> int \<Rightarrow> msg_class option \<Rightarrow> int \<Rightarrow> bool outcome \<times> container" where
  "subscribe_and_wait c a t qos cls rc =
     (case subscribe_for_agent c a t qos cls rc of
        (Await f, c1) \<Rightarrow>
          let c2 = drain_posted (apply_op OnSub c1)
          in (case subscribe_for_agent_resume c2 f of
                Some b \<Rightarrow> (Return b, c2)
              | None \<Rightarrow> (Await f, c2))
      | (r, c1) \<Rightarrow> (r, c1))"

text \<open>
  Agents subscribing to one topic one after the other, each call given as
  \<open>(aid, qos, expected_class, rc)\<close>, and agents deregistering one after the other.
\<close>

fun subscribe_in_sequence ::
  "container \<Rightarrow> topic \<Rightarrow> (aid \<times> int \<times> msg_class option \<times> int) list
     \<Rightarrow> bool outcome list \<times> container" where
  "subscribe_in_sequence c t [] = ([], c)"
| "subscribe_in_sequence c t ((a, qos, cls, rc) # calls) =
     (let (r, c1) = subscribe_and_wait c a t qos cls rc;
          (rs, c2) = subscribe_in_sequence c1 t calls
      in (r # rs, c2))"

definition deregister_in_sequence :: "container \<Rightarrow> aid list \<Rightarrow> container" where
  "deregister_in_sequence c as = fold (\<lambda>a c'. deregister_agent c' a) as c"

text \<open>The futures of the container that are not done.\<close>

definition unresolved :: "container \<Rightarrow> nat list" where
  "unresolved c = filter (\<lambda>f. futures c ! f = FPending) [0 ..< length (futures c)]"

subsection \<open>The consumer loop\<close>

text \<open>
  \<open>raise_exceptions\<close>, the done callback of the consumer task, called with the
  finished task. \<open>fut.exception()\<close> itself raises for a cancelled task. What the
  callback raises goes to the exception handler of the event loop.
\<close>

definition raise_exceptions :: "aid \<Rightarrow> task_state \<Rightarrow> world \<Rightarrow> world" where
  "raise_exceptions a fut w =
     (case fut of
        TaskFailed e \<Rightarrow>
          w\<lparr>heap := fun_upd (heap w) a ((heap w a)\<lparr>agent_log := agent_log (heap w a)
                       @ [''Caught the following exception in _check_inbox'']\<rparr>),
            loop_exceptions := loop_exceptions w @ [e]\<rparr>
      | TaskCancelled \<Rightarrow> w\<lparr>loop_exceptions := loop_exceptions w @ [CancelledError]\<rparr>
      | TaskPending \<Rightarrow> w\<lparr>loop_exceptions := loop_exceptions w @ [InvalidStateError]\<rparr>
      | TaskDone \<Rightarrow> w)"

text \<open>How a task ends when its coroutine lets the exception \<open>e\<close> escape.\<close>

definition ended_by :: "error \<Rightarrow> task_state" where
  "ended_by e = (if e = CancelledError then TaskCancelled else TaskFailed e)"

text \<open>
  One turn of the \<open>while True\<close> loop of \<open>_check_inbox\<close> for the agent \<open>a\<close>.
  \<open>handle_msg\<close> is the user's handler: it returns (\<open>None\<close>) or raises. With an empty
  inbox the task stays suspended in \<open>inbox.get()\<close>; a task that has ended takes no
  more turns. The loop has no \<open>return\<close> and no \<open>break\<close>. The handler's own effects
  are not modelled beyond the record of its calls; \<open>inbox.task_done()\<close> only lowers a
  counter of the queue that nothing here reads; and each inbox entry carries its own
  copy of the metadata, where Python shares one dictionary among the receivers of a
  fan-out (they all store the same priority in it).
\<close>

definition check_inbox_step ::
  "(aid \<Rightarrow> message \<Rightarrow> meta \<Rightarrow> error option) \<Rightarrow> aid \<Rightarrow> world \<Rightarrow> world" where
  "check_inbox_step handle_msg a w =
     (let ag = heap w a
      in if check_inbox_task ag \<noteq> TaskPending then w
         else case agent_inbox ag of
                [] \<Rightarrow> w
              | (priority, content, meta) # rest \<Rightarrow>
                  let meta1 = dict_set meta ''priority'' (VInt priority);
                      ag1 = ag\<lparr>agent_inbox := rest\<rparr>
                  in (case handle_msg a content meta1 of
                        None \<Rightarrow>
                          w\<lparr>heap := fun_upd (heap w) a (ag1\<lparr>handled := handled ag1 @ [(content, meta1)]\<rparr>)\<rparr>
                      | Some e \<Rightarrow>
                          let w1 = w\<lparr>heap := fun_upd (heap w) a (ag1\<lparr>check_inbox_task := ended_by e\<rparr>)\<rparr>
                          in if done_callback ag1 then raise_exceptions a (ended_by e) w1 else w1))"

subsection \<open>Shutdown\<close>

text \<open>\<open>Task.cancel\<close>, seen once the cancelled coroutine has been run: the coroutine of
  \<open>_check_inbox\<close> does not catch \<open>CancelledError\<close>. A finished task is left as it is.\<close>

fun cancel_task :: "task_state \<Rightarrow> task_state" where
  "cancel_task TaskPending = TaskCancelled"
| "cancel_task t = t"

text \<open>\<open>await task\<close>: raises what the task ended with, or waits for a task that has not
  ended.\<close>

fun await_task :: "task_state \<Rightarrow> unit outcome" where
  "await_task TaskPending = Await 0"
| "await_task TaskCancelled = Raise CancelledError"
| "await_task (TaskFailed e) = Raise e"
| "await_task TaskDone = Return ()"

fun first_failure :: "task_state list \<Rightarrow> error option" where
  "first_failure [] = None"
| "first_failure (TaskFailed e # ts) = Some e"
| "first_failure (t # ts) = first_failure ts"

text \<open>
  Modelled from the spec: \<open>Scheduler.stop\<close> of \<open>util.scheduling\<close>, which is not part
  of the sources. The spec says that it "cancels all active tasks and awaits their
  completion, swallowing cancellation signals but propagating any other failure".
\<close>

definition scheduler_stop :: "agent \<Rightarrow> error option \<times> agent" where
  "scheduler_stop ag =
     (let ts = map cancel_task (scheduled_tasks ag)
      in (first_failure ts,
          ag\<lparr>scheduled_tasks := ts, scheduler_stop_calls := Suc (scheduler_stop_calls ag)\<rparr>))"

text \<open>
  \<open>Agent.shutdown\<close> of the agent \<open>a\<close>. The \<open>try\<close> block holds both awaits, the
  handler catches \<open>CancelledError\<close> only, and \<open>finally\<close> writes the log line.
\<close>

definition log_shutdown :: "agent \<Rightarrow> agent" where
  "log_shutdown ag = ag\<lparr>agent_log := agent_log ag @ [''Have successfully shutdown.'']\<rparr>"

definition agent_shutdown :: "world \<Rightarrow> aid \<Rightarrow> unit outcome \<times> world" where
  "agent_shutdown w a =
     (let ag1 = (if \<not> stopped (heap w a) then (heap w a)\<lparr>stopped := True\<rparr> else heap w a);
          c1 = (if running (cont w) then deregister_agent (cont w) a else cont w);
          ag2 = ag1\<lparr>done_callback := False\<rparr>;
          ag3 = ag2\<lparr>check_inbox_task := cancel_task (check_inbox_task ag2)\<rparr>;
          leave = (\<lambda>r ag. (r, w\<lparr>cont := c1, heap := fun_upd (heap w) a ag\<rparr>))
      in case await_task (check_inbox_task ag3) of
           Await f \<Rightarrow> leave (Await f) ag3
         | Raise e \<Rightarrow>
             leave (if e = CancelledError then Return () else Raise e) (log_shutdown ag3)
         | Return u \<Rightarrow>
             (case scheduler_stop ag3 of
                (None, ag4) \<Rightarrow> leave (Return ()) (log_shutdown ag4)
              | (Some e, ag4) \<Rightarrow>
                  leave (if e = CancelledError then Return () else Raise e) (log_shutdown ag4)))"

section \<open>Reference notions used in the properties\<close>


text \<open>
  A wildcard matcher for the examples, after the matcher of the broker client library.
  Subscription and topic are split at \<open>/\<close>. A level of the subscription matches the
  equal level of the topic; \<open>+\<close> matches any one level; \<open>#\<close> as the last level of the
  subscription matches all remaining levels, none included. At the first level the two
  wildcards are allowed only for a topic that does not start with \<open>$\<close>.
\<close>

fun split_topic :: "string \<Rightarrow> string list" where
  "split_topic [] = [[]]"
| "split_topic (c # cs) =
     (if c = CHR ''/'' then [] # split_topic cs
      else (case split_topic cs of [] \<Rightarrow> [[c]] | l # ls \<Rightarrow> (c # l) # ls))"

fun levels_match :: "bool \<Rightarrow> string list \<Rightarrow> string list \<Rightarrow> bool" where
  "levels_match wild [] ts = (ts = [])"
| "levels_match wild (s # ss) ts =
     ((case ts of
         [] \<Rightarrow> False
       | t # ts' \<Rightarrow> (s = t \<or> (s = ''+'' \<and> wild)) \<and> levels_match True ss ts')
      \<or> (s = ''#'' \<and> ss = [] \<and> wild))"

definition topic_matches_sub :: "topic \<Rightarrow> topic \<Rightarrow> bool" where
  "topic_matches_sub sub t =
     levels_match (case t of [] \<Rightarrow> True | c # cs \<Rightarrow> c \<noteq> CHR ''$'')
       (split_topic sub) (split_topic t)"

text \<open>States used in the examples: a container with the inbox address \<open>box\<close> and
  one or two registered agents.\<close>

definition example_container :: container where
  "example_container = register_agent (init_container (Some ''box'')) ''agent0''"

definition example_container2 :: container where
  "example_container2 = register_agent example_container ''agent1''"

text \<open>
  Two calls of \<open>subscribe_for_agent\<close> for two new topics, the second made while the
  first is suspended at its \<open>await\<close>.
\<close>

definition overlapped :: container where
  "overlapped = run example_container
     [SubscribeForAgent ''agent0'' ''t1'' 0 None 0, SubscribeForAgent ''agent0'' ''t2'' 0 None 0]"

text \<open>The topic that an operation subscribes to, if it is a subscription.\<close>

fun subscribed_topic :: "op \<Rightarrow> topic set" where
  "subscribed_topic (SubscribeForAgent a t qos cls rc) = {t}"
| "subscribed_topic _ = {}"




text \<open>The metadata that \<open>send_message\<close> builds for a message it delivers locally.\<close>

definition local_meta :: "string \<Rightarrow> meta \<Rightarrow> meta" where
  "local_meta a kwargs =
     [(''topic'', VStr a), (''qos'', dict_get kwargs ''qos'' (VInt 0)),
      (''retain'', VBool False), (''network_protocol'', VStr ''mqtt'')]"

text \<open>The message that \<open>send_message\<close> sends: the content, wrapped when \<open>create_acl\<close> is true.\<close>

definition sent_message ::
  "(message \<Rightarrow> address \<Rightarrow> string option \<Rightarrow> meta option \<Rightarrow> message)
     \<Rightarrow> message \<Rightarrow> address \<Rightarrow> string option \<Rightarrow> bool option \<Rightarrow> meta option \<Rightarrow> message" where
  "sent_message create_acl_msg content receiver_addr receiver_id create_acl acl_metadata =
     (if create_acl = Some True
      then create_acl_msg content receiver_addr receiver_id acl_metadata else content)"

text \<open>What a call of \<open>send_message\<close> leaves behind, apart from logged warnings: its result,
  the intake queue and the calls on the broker client.\<close>

definition effects :: "error + (bool \<times> container) \<Rightarrow> error + (bool \<times> (int \<times> message \<times> meta) list \<times> broker_call list)" where
  "effects r = map_sum id (\<lambda>(b, c). (b, inbox c, broker_calls c)) r"

text \<open>A container constructed with the empty string as address.\<close>

definition empty_addr_container :: container where
  "empty_addr_container = init_container (Some '''')"

text \<open>A codec for the examples: every payload decodes to an envelope addressed to \<open>agent0\<close>.\<close>

definition decode_envelope :: "string \<Rightarrow> error + message" where
  "decode_envelope payload = Inr (MEnvelope (MPlain payload) [(''receiver_id'', VStr ''agent0'')])"

text \<open>A world whose agents run their consumer loop and have one scheduled task.\<close>

definition shutdown_world :: world where
  "shutdown_world =
     \<lparr> cont = example_container,
       heap = (\<lambda>a. init_agent\<lparr>scheduled_tasks := [TaskPending]\<rparr>),
       loop_exceptions = [] \<rparr>"

text \<open>A user handler that raises for the agent \<open>E\<close> and returns for every other agent.\<close>

definition failing_handler :: "aid \<Rightarrow> message \<Rightarrow> meta \<Rightarrow> error option" where
  "failing_handler a content meta = (if a = ''E'' then Some (UserError ''boom'') else None)"

text \<open>A world in which every agent has one message in its inbox.\<close>

definition two_agents_world :: world where
  "two_agents_world =
     \<lparr> cont = example_container,
       heap = (\<lambda>a. init_agent\<lparr>agent_inbox := [(0, MPlain ''ping'', [(''topic'', VStr ''t'')])]\<rparr>),
       loop_exceptions = [] \<rparr>"

text \<open>The future \<open>f\<close> of the container is done.\<close>

definition is_done :: "container \<Rightarrow> nat \<Rightarrow> bool" where
  "is_done c f = (f < length (futures c) \<and> futures c ! f \<noteq> FPending)"

text \<open>The number of \<open>unsubscribe\<close> calls made for a topic.\<close>

definition unsubscribe_calls :: "container \<Rightarrow> topic \<Rightarrow> nat" where
  "unsubscribe_calls c t = count_list (broker_calls c) (Unsubscribe t)"

text \<open>The topic is a key of the additional subscriptions, at one position.\<close>

definition key_once :: "container \<Rightarrow> topic \<Rightarrow> bool" where
  "key_once c t = (count_list (map fst (additional_subscriptions c)) t = 1)"

text \<open>Two agents subscribing to one topic, for the example.\<close>

definition two_calls :: "(aid \<times> int \<times> msg_class option \<times> int) list" where
  "two_calls = [(''agent0'', 0, None, 0), (''agent1'', 1, None, 0)]"

section \<open>Properties of the dictionaries\<close>

lemma map_of_dict_set: "map_of (dict_set d k v) = (map_of d)(k \<mapsto> v)"
  by (induction d) (auto simp: fun_eq_iff)

lemma dict_keys_dom: "dict_keys d = dom (map_of d)"
  by (simp add: dict_keys_def dom_map_of_conv_image_fst)

lemma dict_keys_dict_set: "dict_keys (dict_set d k v) = insert k (dict_keys d)"
  by (simp add: dict_keys_dom map_of_dict_set)

lemma map_of_None_dict_keys: "map_of d k = None \<longleftrightarrow> k \<notin> dict_keys d"
  by (auto simp: dict_keys_dom)

section \<open>Subscriptions\<close>

text \<open>
  C9. A subscription that the broker client rejects at once is not undone. For a
  registered agent and a topic without subscribers, a call with a return code other
  than success returns \<open>False\<close>, and afterwards the topic is still a key of the
  additional subscriptions, mapped to the set holding just that agent, and the class
  binding is stored when a class was given. A later call for the same topic by a
  registered agent returns \<open>True\<close> and makes no call on the broker client.
\<close>

theorem subscribe_failure_not_atomic:
  assumes "a \<in> agents c"
    and "t \<notin> dict_keys (additional_subscriptions c)"
    and "rc \<noteq> MQTT_ERR_SUCCESS"
    and "subscribe_for_agent c a t qos cls rc = (r, c')"
    and "b \<in> agents c'"
  shows "r = Return False
       \<and> map_of (additional_subscriptions c') t = Some {a}
       \<and> (\<forall>k. cls = Some k \<longrightarrow> map_of (subscriptions_to_class c') t = Some k)
       \<and> fst (subscribe_for_agent c' b t qos' cls' rc') = Return True
       \<and> broker_calls (snd (subscribe_for_agent c' b t qos' cls' rc')) = broker_calls c'"
  using assms
  by (auto simp: subscribe_for_agent_def Let_def map_of_dict_set
        map_of_None_dict_keys[symmetric] split: option.splits)

theorem subscribe_failure_not_atomic_witness:
  "fst (subscribe_for_agent example_container ''agent0'' ''x/y'' 0 (Some ACLMessageClass) 1)
     = Return False
   \<and> map_of (additional_subscriptions
        (snd (subscribe_for_agent example_container ''agent0'' ''x/y'' 0 (Some ACLMessageClass) 1)))
        ''x/y'' = Some {''agent0''}
   \<and> map_of (subscriptions_to_class
        (snd (subscribe_for_agent example_container ''agent0'' ''x/y'' 0 (Some ACLMessageClass) 1)))
        ''x/y'' = Some ACLMessageClass
   \<and> fst (subscribe_for_agent
        (snd (subscribe_for_agent example_container ''agent0'' ''x/y'' 0 (Some ACLMessageClass) 1))
        ''agent0'' ''x/y'' 0 None 0) = Return True"
proof -
  let ?c = example_container
  let ?r = "subscribe_for_agent ?c ''agent0'' ''x/y'' 0 (Some ACLMessageClass) 1"
  have h1: "''agent0'' \<in> agents ?c"
    by (simp add: example_container_def register_agent_def init_container_def)
  have h2: "''x/y'' \<notin> dict_keys (additional_subscriptions ?c)"
    by (simp add: example_container_def register_agent_def init_container_def dict_keys_def)
  have h3: "(1::int) \<noteq> MQTT_ERR_SUCCESS" by (simp add: MQTT_ERR_SUCCESS_def)
  have h4: "?r = (fst ?r, snd ?r)" by simp
  have h5: "''agent0'' \<in> agents (snd ?r)"
    using h1 by (simp add: subscribe_for_agent_def Let_def split: option.splits)
  show ?thesis
    using subscribe_failure_not_atomic [OF h1 h2 h3 h4 h5, of 0 None 0] by simp
qed

lemmas example_defs = example_container_def register_agent_def init_container_def

section \<open>Pending subscriptions\<close>

text \<open>
  C1. The claim is that at most one pending subscription future is unresolved at any
  time, also when a second call for another new topic is made while a first one is
  suspended, and that every awaited future is resolved by an acknowledgment. The
  container does otherwise: after the two overlapping calls both futures 0 and 1 are
  unresolved and the field \<open>pending_sub_request\<close> holds future 1 only. The first
  acknowledgment resolves future 1; the second one calls \<open>set_result\<close> on future 1
  again, which raises \<open>InvalidStateError\<close>, and future 0, which the first call awaits,
  stays pending.
\<close>

theorem overlapping_subscriptions_two_pending:
  "fst (subscribe_for_agent example_container ''agent0'' ''t1'' 0 None 0) = Await 0
   \<and> fst (subscribe_for_agent
        (snd (subscribe_for_agent example_container ''agent0'' ''t1'' 0 None 0))
        ''agent0'' ''t2'' 0 None 0) = Await 1
   \<and> unresolved overlapped = [0, 1]
   \<and> pending_sub_request overlapped = Some 1
   \<and> unresolved (run overlapped [OnSub, RunPosted]) = [0]
   \<and> subscribe_for_agent_resume (run overlapped [OnSub, RunPosted]) 1 = Some True
   \<and> fst (run_posted (apply_op OnSub (run overlapped [OnSub, RunPosted]))) = Some InvalidStateError
   \<and> subscribe_for_agent_resume (run overlapped [OnSub, RunPosted, OnSub, RunPosted]) 0 = None"
  by (simp add: overlapped_def run_def example_defs subscribe_for_agent_def Let_def
      MQTT_ERR_SUCCESS_def unresolved_def on_sub_def run_posted_def set_result_def
      subscribe_for_agent_resume_def upt_rec)

section \<open>The inbox address and the additional subscriptions\<close>

lemma keys_dict_pop: "dict_keys (dict_pop d k) \<subseteq> dict_keys d"
  by (auto simp: dict_keys_def dict_pop_def)

lemma keys_fold_unsubscribe:
  "dict_keys (additional_subscriptions (fold unsubscribe_empty ts c))
     \<subseteq> dict_keys (additional_subscriptions c)"
proof (induction ts arbitrary: c)
  case Nil then show ?case by simp
next
  case (Cons t ts)
  have "dict_keys (additional_subscriptions (unsubscribe_empty t c))
          \<subseteq> dict_keys (additional_subscriptions c)"
    by (simp add: unsubscribe_empty_def keys_dict_pop)
  with Cons[of "unsubscribe_empty t c"] show ?case by auto
qed

lemma keys_deregister:
  "dict_keys (additional_subscriptions (deregister_agent c a))
     \<subseteq> dict_keys (additional_subscriptions c)"
proof -
  let ?c1 = "super_deregister_agent c a"
  let ?subs = "map (\<lambda>(s, A). (s, A - {a})) (additional_subscriptions ?c1)"
  have "dict_keys ?subs = dict_keys (additional_subscriptions c)"
    by (force simp: dict_keys_def super_deregister_agent_def)
  then show ?thesis
    using keys_fold_unsubscribe[of _ "?c1\<lparr>additional_subscriptions := ?subs\<rparr>"]
    by (simp add: deregister_agent_def Let_def)
qed

lemma keys_subscribe:
  "dict_keys (additional_subscriptions (snd (subscribe_for_agent c a t qos cls rc)))
     \<subseteq> insert t (dict_keys (additional_subscriptions c))"
  by (auto simp: subscribe_for_agent_def Let_def dict_keys_dict_set split: option.splits)

lemma keys_apply_op:
  "dict_keys (additional_subscriptions (apply_op x c))
     \<subseteq> dict_keys (additional_subscriptions c) \<union> subscribed_topic x"
proof (cases x)
  case (SubscribeForAgent a t qos cls rc)
  then show ?thesis using keys_subscribe[of c a t qos cls rc] by auto
next
  case (DeregisterAgent a)
  then show ?thesis using keys_deregister[of c a] by auto
qed (auto simp: register_agent_def set_expected_class_def on_sub_def run_posted_def
      split: option.splits list.splits callback.splits sum.splits)

lemma keys_run:
  "dict_keys (additional_subscriptions (run c ops))
     \<subseteq> dict_keys (additional_subscriptions c) \<union> \<Union> (subscribed_topic ` set ops)"
  unfolding run_def
proof (induction ops arbitrary: c)
  case Nil then show ?case by simp
next
  case (Cons x ops)
  show ?case using Cons[of "apply_op x c"] keys_apply_op[of x c] by auto
qed

lemma inbox_topic_fold_unsubscribe: "inbox_topic (fold unsubscribe_empty ts c) = inbox_topic c"
  by (induction ts arbitrary: c) (simp_all add: unsubscribe_empty_def)

lemma inbox_topic_apply_op: "inbox_topic (apply_op x c) = inbox_topic c"
  by (cases x)
     (auto simp: register_agent_def set_expected_class_def on_sub_def run_posted_def
        subscribe_for_agent_def deregister_agent_def Let_def inbox_topic_fold_unsubscribe
        super_deregister_agent_def
        split: option.splits list.splits callback.splits sum.splits)

lemma inbox_topic_run: "inbox_topic (run c ops) = inbox_topic c"
  unfolding run_def by (induction ops arbitrary: c) (simp_all add: inbox_topic_apply_op)

text \<open>
  C8, as amended. From a new container with the inbox address \<open>t\<close>, every sequence of
  operations in which no \<open>subscribe_for_agent\<close> call has \<open>t\<close> as its topic leads to a
  state whose inbox address is still \<open>t\<close> and in which \<open>t\<close> is not a key of the
  additional subscriptions.
\<close>

theorem inbox_address_not_subscribed:
  assumes "t \<notin> \<Union> (subscribed_topic ` set ops)"
  shows "inbox_topic (run (init_container (Some t)) ops) = Some t
       \<and> t \<notin> dict_keys (additional_subscriptions (run (init_container (Some t)) ops))"
proof -
  have "dict_keys (additional_subscriptions (init_container (Some t))) = {}"
    by (simp add: init_container_def dict_keys_def)
  then have "t \<notin> dict_keys (additional_subscriptions (run (init_container (Some t)) ops))"
    using keys_run[of "init_container (Some t)" ops] assms by auto
  then show ?thesis by (simp add: inbox_topic_run init_container_def)
qed

theorem inbox_address_not_subscribed_witness:
  "inbox_topic (run (init_container (Some ''box''))
       [Register ''agent0'', SubscribeForAgent ''agent0'' ''x/y'' 0 None 0, OnSub, RunPosted,
        DeregisterAgent ''agent0'']) = Some ''box''
   \<and> ''box'' \<notin> dict_keys (additional_subscriptions (run (init_container (Some ''box''))
       [Register ''agent0'', SubscribeForAgent ''agent0'' ''x/y'' 0 None 0, OnSub, RunPosted,
        DeregisterAgent ''agent0'']))"
proof -
  have h: "''box'' \<notin> \<Union> (subscribed_topic ` set
       [Register ''agent0'', SubscribeForAgent ''agent0'' ''x/y'' 0 None 0, OnSub, RunPosted,
        DeregisterAgent ''agent0''])" by simp
  show ?thesis using inbox_address_not_subscribed [OF h] by simp
qed

text \<open>
  The claim as stated fails: \<open>subscribe_for_agent\<close> does not compare the topic with the
  inbox address, so a registered agent that subscribes to the inbox address makes it a
  key of the additional subscriptions.
\<close>

theorem inbox_address_subscribed_counterexample:
  "inbox_topic (run (init_container (Some ''box''))
       [Register ''agent0'', SubscribeForAgent ''agent0'' ''box'' 0 None 0]) = Some ''box''
   \<and> ''box'' \<in> dict_keys (additional_subscriptions (run (init_container (Some ''box''))
       [Register ''agent0'', SubscribeForAgent ''agent0'' ''box'' 0 None 0]))"
  by (simp add: run_def example_defs subscribe_for_agent_def Let_def dict_keys_def)

section \<open>Dispatch of inbound messages\<close>

















section \<open>Sending\<close>

lemma warn_deprecated_keeps:
  "addr (warn_deprecated c ca am mk) = addr c"
  "inbox (warn_deprecated c ca am mk) = inbox c"
  "broker_calls (warn_deprecated c ca am mk) = broker_calls c"
  by (simp_all add: warn_deprecated_def Let_def)

lemma actual_mqtt_kwargs_eq: "actual_mqtt_kwargs mqtt_kwargs kwargs = kwargs"
  by (simp add: actual_mqtt_kwargs_def)

lemma send_message_local:
  assumes "addr c = Some a" and "a \<noteq> []" and "receiver_addr = Topic a"
    and "\<not> truthy (dict_get kwargs ''retain'' (VBool False))"
  shows "effects (send_message create_acl_msg encode c content receiver_addr receiver_id
       create_acl acl_metadata mqtt_kwargs kwargs)
     = Inr (True, inbox c @ [(0, split_content_and_meta
              (sent_message create_acl_msg content receiver_addr receiver_id create_acl acl_metadata)
              (local_meta a kwargs))], broker_calls c)"
  using assms
  by (simp add: send_message_def effects_def Let_def warn_deprecated_keeps
      actual_mqtt_kwargs_eq sent_message_def local_meta_def case_prod_beta)

lemma send_message_external:
  assumes "\<not> (\<exists>a. addr c = Some a \<and> a \<noteq> [] \<and> receiver_addr = Topic a)
           \<or> truthy (dict_get kwargs ''retain'' (VBool False))"
    and "encode (sent_message create_acl_msg content receiver_addr receiver_id create_acl acl_metadata)
           = Inr encoded"
  shows "effects (send_message create_acl_msg encode c content receiver_addr receiver_id
       create_acl acl_metadata mqtt_kwargs kwargs)
     = Inr (True, inbox c, broker_calls c @ [Publish receiver_addr encoded])"
  using assms
  by (auto simp: send_message_def effects_def Let_def warn_deprecated_keeps
      actual_mqtt_kwargs_eq sent_message_def send_external_message_def split: option.splits)

lemma send_message_ignores_mqtt_kwargs:
  "effects (send_message create_acl_msg encode c content receiver_addr receiver_id
       create_acl acl_metadata mqtt_kwargs kwargs)
     = effects (send_message create_acl_msg encode c content receiver_addr receiver_id
       create_acl acl_metadata None kwargs)"
  by (simp add: send_message_def effects_def Let_def warn_deprecated_keeps
      actual_mqtt_kwargs_eq send_external_message_def case_prod_beta split: sum.splits)

text \<open>
  C4. The container has the address \<open>a\<close> when \<open>self.addr\<close> is \<open>a\<close> and passes the
  test \<open>if self.addr\<close>, that is, \<open>a\<close> is not the empty string. For such a container, a
  call whose receiver address is \<open>a\<close> and whose options hold no true \<open>retain\<close> returns
  \<open>True\<close>, appends the tuple of priority 0, the split message and the local metadata to
  the intake queue and makes no call on the broker client; a call with another receiver
  address or a true \<open>retain\<close> leaves the intake queue as it is and, the codec having
  encoded the message, publishes the encoded message to the receiver address.
\<close>

theorem send_message_short_circuit:
  assumes "addr c = Some a" and "a \<noteq> []"
    and "m = sent_message create_acl_msg content receiver_addr receiver_id create_acl acl_metadata"
  shows "(receiver_addr = Topic a \<and> \<not> truthy (dict_get kwargs ''retain'' (VBool False))
          \<longrightarrow> effects (send_message create_acl_msg encode c content receiver_addr receiver_id
                 create_acl acl_metadata mqtt_kwargs kwargs)
              = Inr (True, inbox c @ [(0, split_content_and_meta m (local_meta a kwargs))],
                     broker_calls c))
       \<and> ((receiver_addr \<noteq> Topic a \<or> truthy (dict_get kwargs ''retain'' (VBool False)))
            \<and> encode m = Inr encoded
          \<longrightarrow> effects (send_message create_acl_msg encode c content receiver_addr receiver_id
                 create_acl acl_metadata mqtt_kwargs kwargs)
              = Inr (True, inbox c, broker_calls c @ [Publish receiver_addr encoded]))"
proof (intro conjI impI)
  assume "receiver_addr = Topic a \<and> \<not> truthy (dict_get kwargs ''retain'' (VBool False))"
  then show "effects (send_message create_acl_msg encode c content receiver_addr receiver_id
                 create_acl acl_metadata mqtt_kwargs kwargs)
              = Inr (True, inbox c @ [(0, split_content_and_meta m (local_meta a kwargs))],
                     broker_calls c)"
    unfolding assms(3) using send_message_local [OF assms(1,2)] by simp
next
  assume h: "(receiver_addr \<noteq> Topic a \<or> truthy (dict_get kwargs ''retain'' (VBool False)))
            \<and> encode m = Inr encoded"
  have "\<not> (\<exists>b. addr c = Some b \<and> b \<noteq> [] \<and> receiver_addr = Topic b)
          \<or> truthy (dict_get kwargs ''retain'' (VBool False))"
    using h assms(1) by auto
  moreover have "encode (sent_message create_acl_msg content receiver_addr receiver_id
      create_acl acl_metadata) = Inr encoded"
    using h assms(3) by simp
  ultimately show "effects (send_message create_acl_msg encode c content receiver_addr receiver_id
                 create_acl acl_metadata mqtt_kwargs kwargs)
              = Inr (True, inbox c, broker_calls c @ [Publish receiver_addr encoded])"
    by (rule send_message_external)
qed

text \<open>
  A container constructed with the empty string as address is treated like one without
  an address: the test \<open>self.addr and ...\<close> is false for it, so a message sent to the
  empty topic is published, with or without \<open>mqtt_kwargs\<close>.
\<close>

lemma send_message_empty_address:
  "addr empty_addr_container = Some ''''
   \<and> \<not> truthy (dict_get [] ''retain'' (VBool False))
   \<and> effects (send_message (\<lambda>m r i md. m) (\<lambda>m. Inr ''bytes'') empty_addr_container
        (MPlain ''hello'') (Topic '''') None None None None [])
     = Inr (True, [], [Publish (Topic '''') ''bytes''])"
  by (simp add: empty_addr_container_def init_container_def send_message_def effects_def
      Let_def send_external_message_def dict_get_def warn_deprecated_def
      actual_mqtt_kwargs_def)

theorem send_message_short_circuit_witness:
  "effects (send_message (\<lambda>m r i md. m) (\<lambda>m. Inr ''bytes'') example_container
      (MEnvelope (MPlain ''hello'') [(''receiver_id'', VStr ''agent0'')]) (Topic ''box'')
      None None None None [(''qos'', VInt 1)])
     = Inr (True, [(0, MPlain ''hello'',
                    [(''topic'', VStr ''box''), (''qos'', VInt 1), (''retain'', VBool False),
                     (''network_protocol'', VStr ''mqtt''), (''receiver_id'', VStr ''agent0'')])], [])
   \<and> effects (send_message (\<lambda>m r i md. m) (\<lambda>m. Inr ''bytes'') example_container
      (MPlain ''hello'') (Topic ''box'') None None None None [(''retain'', VBool True)])
     = Inr (True, [], [Publish (Topic ''box'') ''bytes''])"
proof -
  have a: "addr example_container = Some ''box''" and n: "''box'' \<noteq> []"
    by (simp_all add: example_container_def register_agent_def init_container_def)
  have m1: "MEnvelope (MPlain ''hello'') [(''receiver_id'', VStr ''agent0'')]
      = sent_message (\<lambda>m r i md. m) (MEnvelope (MPlain ''hello'') [(''receiver_id'', VStr ''agent0'')])
          (Topic ''box'') None None None"
    and m2: "MPlain ''hello'' = sent_message (\<lambda>m r i md. m) (MPlain ''hello'') (Topic ''box'') None None None"
    by (simp_all add: sent_message_def)
  have i: "inbox example_container = []" "broker_calls example_container = []"
    by (simp_all add: example_container_def register_agent_def init_container_def)
  show ?thesis
    using send_message_short_circuit [OF a n m1, where kwargs = "[(''qos'', VInt 1)]"
          and encode = "\<lambda>m. Inr ''bytes''" and encoded = "''bytes''" and mqtt_kwargs = None]
      send_message_short_circuit [OF a n m2, where kwargs = "[(''retain'', VBool True)]"
          and encode = "\<lambda>m. Inr ''bytes''" and encoded = "''bytes''" and mqtt_kwargs = None]
    by (simp add: i dict_get_def local_meta_def dict_update_def)
qed

text \<open>
  C10. The parameter \<open>mqtt_kwargs\<close> changes nothing but the deprecation warning:
  result, intake queue and broker calls are those of the call without it. In
  particular, for a container that has the address \<open>a\<close> (not the empty string, see
  C4), a message sent to \<open>a\<close> with \<open>mqtt_kwargs = {"retain": True}\<close> and no \<open>retain\<close>
  among the keyword arguments is delivered locally and not published.
\<close>

theorem mqtt_kwargs_ignored:
  "effects (send_message create_acl_msg encode c content receiver_addr receiver_id
       create_acl acl_metadata mqtt_kwargs kwargs)
     = effects (send_message create_acl_msg encode c content receiver_addr receiver_id
       create_acl acl_metadata None kwargs)
   \<and> (addr c = Some a \<and> a \<noteq> [] \<and> ''retain'' \<notin> dict_keys kwargs
      \<longrightarrow> effects (send_message create_acl_msg encode c content (Topic a) receiver_id
             create_acl acl_metadata (Some [(''retain'', VBool True)]) kwargs)
          = Inr (True, inbox c @ [(0, split_content_and_meta
                   (sent_message create_acl_msg content (Topic a) receiver_id create_acl acl_metadata)
                   (local_meta a kwargs))], broker_calls c))"
proof -
  have "''retain'' \<notin> dict_keys kwargs \<Longrightarrow> \<not> truthy (dict_get kwargs ''retain'' (VBool False))"
    by (simp add: dict_get_def map_of_None_dict_keys[symmetric])
  then show ?thesis
    using send_message_ignores_mqtt_kwargs send_message_local [where receiver_addr = "Topic a"]
    by blast
qed

theorem mqtt_kwargs_ignored_witness:
  "effects (send_message (\<lambda>m r i md. m) (\<lambda>m. Inr ''bytes'') example_container
      (MPlain ''hello'') (Topic ''box'') None None None (Some [(''retain'', VBool True)]) [])
     = Inr (True, [(0, MPlain ''hello'',
                    [(''topic'', VStr ''box''), (''qos'', VInt 0), (''retain'', VBool False),
                     (''network_protocol'', VStr ''mqtt'')])], [])"
proof -
  have a: "addr example_container = Some ''box'' \<and> ''box'' \<noteq> [] \<and> ''retain'' \<notin> dict_keys ([] :: meta)"
    by (simp add: example_container_def register_agent_def init_container_def dict_keys_def)
  have i: "inbox example_container = []" "broker_calls example_container = []"
    by (simp_all add: example_container_def register_agent_def init_container_def)
  show ?thesis
    using a mqtt_kwargs_ignored [where create_acl_msg = "\<lambda>m r i md. m"
        and encode = "\<lambda>m. Inr ''bytes''" and c = example_container
        and content = "MPlain ''hello''" and receiver_id = None and create_acl = None
        and acl_metadata = None and kwargs = "[]" and a = "''box''", THEN conjunct2]
    by (simp add: i dict_get_def local_meta_def sent_message_def)
qed

lemma send_message_empty_address_mqtt_kwargs:
  "addr empty_addr_container = Some ''''
   \<and> ''retain'' \<notin> dict_keys ([] :: meta)
   \<and> effects (send_message (\<lambda>m r i md. m) (\<lambda>m. Inr ''bytes'') empty_addr_container
        (MPlain ''hello'') (Topic '''') None None None (Some [(''retain'', VBool True)]) [])
     = Inr (True, [], [Publish (Topic '''') ''bytes''])"
  by (simp add: empty_addr_container_def init_container_def send_message_def effects_def
      Let_def send_external_message_def dict_get_def dict_keys_def warn_deprecated_def
      actual_mqtt_kwargs_def)

section \<open>Receiving\<close>

text \<open>
  C7. The claim is that the handler decodes with the class bound to the topic, an
  envelope when no class is bound, merges the envelope metadata and enqueues the decoded
  message content. The container does otherwise. With no class bound to the topic, a
  payload that decodes to an envelope is posted whole and its metadata is not merged;
  with \<open>ACLMessage\<close> bound to the topic the metadata is merged, and the envelope is
  still posted whole, not its content.
\<close>

theorem on_msg_enqueues_whole_decoded_object:
  "on_msg topic_matches_sub decode_envelope example_container ''news'' ''hello'' 1 False
     = Inr (example_container\<lparr>posted :=
         [PutNowait (0, MEnvelope (MPlain ''hello'') [(''receiver_id'', VStr ''agent0'')],
            [(''network_protocol'', VStr ''mqtt''), (''topic'', VStr ''news''),
             (''qos'', VInt 1), (''retain'', VBool False)])]\<rparr>)
   \<and> on_msg topic_matches_sub decode_envelope
       (set_expected_class example_container ''news'' ACLMessageClass) ''news'' ''hello'' 1 False
     = Inr (set_expected_class example_container ''news'' ACLMessageClass\<lparr>posted :=
         [PutNowait (0, MEnvelope (MPlain ''hello'') [(''receiver_id'', VStr ''agent0'')],
            [(''network_protocol'', VStr ''mqtt''), (''topic'', VStr ''news''),
             (''qos'', VInt 1), (''retain'', VBool False),
             (''receiver_id'', VStr ''agent0'')])]\<rparr>)"
  by (simp add: on_msg_def decode_mqtt_msg_def decode_envelope_def example_container_def
      register_agent_def init_container_def set_expected_class_def topic_matches_sub_def
      dict_update_def Let_def)

section \<open>The agent\<close>

lemma ended_by_not_pending: "ended_by e \<noteq> TaskPending" "ended_by e \<noteq> TaskDone"
  by (simp_all add: ended_by_def)

lemma check_inbox_step_never_returns:
  "check_inbox_task (heap w a) \<noteq> TaskDone
     \<Longrightarrow> check_inbox_task (heap (check_inbox_step handle_msg b w) a) \<noteq> TaskDone"
  by (auto simp: check_inbox_step_def Let_def raise_exceptions_def ended_by_def
      split: list.splits option.splits task_state.splits)

text \<open>
  The consumer loop never ends with a normal return, and for such a task \<open>shutdown\<close>
  leaves the scheduler untouched.
\<close>

lemma shutdown_never_stops_scheduler:
  assumes "check_inbox_task (heap w a) \<noteq> TaskDone"
  shows "scheduler_stop_calls (heap (snd (agent_shutdown w a)) a) = scheduler_stop_calls (heap w a)"
    and "scheduled_tasks (heap (snd (agent_shutdown w a)) a) = scheduled_tasks (heap w a)"
  using assms
  by (cases "check_inbox_task (heap w a)";
      simp add: agent_shutdown_def Let_def log_shutdown_def)+

text \<open>
  C5. The claim is that every call of \<open>shutdown\<close> ends with a call of
  \<open>Scheduler.stop()\<close>, made after the consumer loop has terminated. The agent does
  otherwise: \<open>await self._check_inbox_task\<close> raises \<open>CancelledError\<close> for the task that
  has just been cancelled, inside the \<open>try\<close> block that also holds the call of
  \<open>stop\<close>, so the handler swallows the exception and \<open>stop\<close> is skipped. For an agent
  with a running consumer loop and one scheduled task, \<open>shutdown\<close> returns, the loop is
  cancelled, the scheduler's \<open>stop\<close> has not been called and its task is still pending;
  a second call of \<open>shutdown\<close> returns as well and does not call it either.
\<close>

theorem shutdown_skips_scheduler_stop:
  "fst (agent_shutdown shutdown_world ''agent0'') = Return ()
   \<and> check_inbox_task (heap (snd (agent_shutdown shutdown_world ''agent0'')) ''agent0'') = TaskCancelled
   \<and> scheduler_stop_calls (heap (snd (agent_shutdown shutdown_world ''agent0'')) ''agent0'') = 0
   \<and> scheduled_tasks (heap (snd (agent_shutdown shutdown_world ''agent0'')) ''agent0'') = [TaskPending]
   \<and> fst (agent_shutdown (snd (agent_shutdown shutdown_world ''agent0'')) ''agent0'') = Return ()
   \<and> scheduler_stop_calls
        (heap (snd (agent_shutdown (snd (agent_shutdown shutdown_world ''agent0'')) ''agent0''))
           ''agent0'') = 0"
  by (simp add: agent_shutdown_def shutdown_world_def init_agent_def Let_def log_shutdown_def)

text \<open>
  C6. When the handler of agent \<open>a\<close> raises \<open>e\<close> for the message at the head of the
  inbox, while the done callback is attached (as it is until \<open>shutdown\<close>): the consumer
  task of \<open>a\<close> ends with \<open>e\<close> and takes no further turn, \<open>e\<close> reaches the exception
  handler of the event loop, the container is unchanged, every other agent object is
  unchanged, and the next turn of every other agent's loop gives that agent what it
  would have given without the fault.
\<close>

theorem handler_fault_isolated:
  assumes "check_inbox_task (heap w a) = TaskPending"
    and "agent_inbox (heap w a) = (priority, content, meta) # rest"
    and "handle_msg a content (dict_set meta ''priority'' (VInt priority)) = Some e"
    and "done_callback (heap w a)"
  shows "check_inbox_task (heap (check_inbox_step handle_msg a w) a) = ended_by e
       \<and> check_inbox_step handle_msg a (check_inbox_step handle_msg a w)
           = check_inbox_step handle_msg a w
       \<and> loop_exceptions (check_inbox_step handle_msg a w) = loop_exceptions w @ [e]
       \<and> cont (check_inbox_step handle_msg a w) = cont w
       \<and> (\<forall>b. b \<noteq> a \<longrightarrow>
            heap (check_inbox_step handle_msg a w) b = heap w b
          \<and> heap (check_inbox_step handle_msg b (check_inbox_step handle_msg a w)) b
              = heap (check_inbox_step handle_msg b w) b)"
proof -
  let ?w = "check_inbox_step handle_msg a w"
  have task: "check_inbox_task (heap ?w a) = ended_by e"
    and exc: "loop_exceptions ?w = loop_exceptions w @ [e]"
    and cnt: "cont ?w = cont w"
    and others: "\<And>b. b \<noteq> a \<Longrightarrow> heap ?w b = heap w b"
    using assms
    by (auto simp: check_inbox_step_def Let_def raise_exceptions_def ended_by_def)
  have stop: "check_inbox_step handle_msg a ?w = ?w"
    using task by (simp add: check_inbox_step_def[of handle_msg a ?w] Let_def ended_by_not_pending)
  have cont_b: "heap (check_inbox_step handle_msg b ?w) b = heap (check_inbox_step handle_msg b w) b"
    if "b \<noteq> a" for b
    using others[OF that]
    by (auto simp: check_inbox_step_def[of handle_msg b] Let_def raise_exceptions_def
        split: list.splits option.splits task_state.splits)
  show ?thesis using task exc cnt others stop cont_b by blast
qed

theorem handler_fault_isolated_witness:
  "check_inbox_task (heap (check_inbox_step failing_handler ''E'' two_agents_world) ''E'')
       = TaskFailed (UserError ''boom'')
   \<and> loop_exceptions (check_inbox_step failing_handler ''E'' two_agents_world) = [UserError ''boom'']
   \<and> cont (check_inbox_step failing_handler ''E'' two_agents_world) = cont two_agents_world
   \<and> handled (heap (check_inbox_step failing_handler ''F''
         (check_inbox_step failing_handler ''E'' two_agents_world)) ''F'')
       = [(MPlain ''ping'', [(''topic'', VStr ''t''), (''priority'', VInt 0)])]"
proof -
  have h1: "check_inbox_task (heap two_agents_world ''E'') = TaskPending"
    and h2: "agent_inbox (heap two_agents_world ''E'') = (0, MPlain ''ping'', [(''topic'', VStr ''t'')]) # []"
    and h3: "failing_handler ''E'' (MPlain ''ping'') (dict_set [(''topic'', VStr ''t'')] ''priority'' (VInt 0))
               = Some (UserError ''boom'')"
    and h4: "done_callback (heap two_agents_world ''E'')"
    by (simp_all add: two_agents_world_def init_agent_def failing_handler_def)
  have f: "heap (check_inbox_step failing_handler ''F'' two_agents_world) ''F''
      = init_agent\<lparr>agent_inbox := [],
          handled := [(MPlain ''ping'', [(''topic'', VStr ''t''), (''priority'', VInt 0)])]\<rparr>"
    by (simp add: check_inbox_step_def two_agents_world_def init_agent_def failing_handler_def Let_def)
  have l: "loop_exceptions two_agents_world = []" by (simp add: two_agents_world_def)
  note t = handler_fault_isolated [where handle_msg = failing_handler and w = two_agents_world
        and a = "''E''" and priority = 0 and content = "MPlain ''ping''"
        and meta = "[(''topic'', VStr ''t'')]" and rest = "[]" and e = "UserError ''boom''",
        OF h1 h2 h3 h4]
  from t have "heap (check_inbox_step failing_handler ''F''
         (check_inbox_step failing_handler ''E'' two_agents_world)) ''F''
       = heap (check_inbox_step failing_handler ''F'' two_agents_world) ''F''"
    by simp
  with t show ?thesis by (simp add: f l ended_by_def)
qed

section \<open>Reference counting of broker subscriptions\<close>

lemma keys_dict_set:
  "map fst (dict_set d k v) = (if k \<in> fst ` set d then map fst d else map fst d @ [k])"
  by (induction d) force+

lemma count_keys_dict_set:
  "count_list (map fst (dict_set d k v)) t =
     (if k \<in> fst ` set d \<or> t \<noteq> k then count_list (map fst d) t else 1)"
proof -
  have "k \<notin> fst ` set d \<Longrightarrow> count_list (map fst d) k = 0"
    by (simp add: count_list_0_iff)
  then show ?thesis by (auto simp: keys_dict_set)
qed

lemma run_posted_keeps:
  "agents (snd (run_posted c)) = agents c"
  "additional_subscriptions (snd (run_posted c)) = additional_subscriptions c"
  "broker_calls (snd (run_posted c)) = broker_calls c"
  "subscriptions_to_class (snd (run_posted c)) = subscriptions_to_class c"
  by (auto simp: run_posted_def split: list.splits callback.splits sum.splits)

lemma fold_run_posted_keeps:
  "agents (fold (\<lambda>cb c'. snd (run_posted c')) xs c) = agents c"
  "additional_subscriptions (fold (\<lambda>cb c'. snd (run_posted c')) xs c) = additional_subscriptions c"
  "broker_calls (fold (\<lambda>cb c'. snd (run_posted c')) xs c) = broker_calls c"
  "subscriptions_to_class (fold (\<lambda>cb c'. snd (run_posted c')) xs c) = subscriptions_to_class c"
  by (induction xs arbitrary: c) (simp_all add: run_posted_keeps)

lemma drain_posted_keeps:
  "agents (drain_posted c) = agents c"
  "additional_subscriptions (drain_posted c) = additional_subscriptions c"
  "broker_calls (drain_posted c) = broker_calls c"
  "subscriptions_to_class (drain_posted c) = subscriptions_to_class c"
  by (simp_all add: drain_posted_def fold_run_posted_keeps)

lemma on_sub_keeps:
  "agents (apply_op OnSub c) = agents c"
  "additional_subscriptions (apply_op OnSub c) = additional_subscriptions c"
  "broker_calls (apply_op OnSub c) = broker_calls c"
  "subscriptions_to_class (apply_op OnSub c) = subscriptions_to_class c"
  by (auto simp: on_sub_def split: option.splits)

lemma run_posted_done: "is_done c f \<Longrightarrow> is_done (snd (run_posted c)) f"
  by (auto simp: run_posted_def is_done_def set_result_def nth_list_update
           split: list.splits callback.splits sum.splits if_splits)

lemma fold_run_posted_done:
  "is_done c f \<Longrightarrow> is_done (fold (\<lambda>cb c'. snd (run_posted c')) xs c) f"
  by (induction xs arbitrary: c) (simp_all add: run_posted_done)

lemma run_posted_posted: "posted (snd (run_posted c)) = tl (posted c)"
  by (auto simp: run_posted_def split: list.splits callback.splits sum.splits)

lemma run_posted_length: "length (futures (snd (run_posted c))) = length (futures c)"
  by (auto simp: run_posted_def set_result_def split: list.splits callback.splits sum.splits if_splits)

lemma fold_run_posted_sets:
  assumes "posted c = xs @ SetResult f v # ys" and "f < length (futures c)"
  shows "is_done (fold (\<lambda>cb c'. snd (run_posted c')) (xs @ SetResult f v # ys) c) f"
  using assms
proof (induction xs arbitrary: c)
  case Nil
  then have "is_done (snd (run_posted c)) f"
    by (auto simp: run_posted_def is_done_def set_result_def split: if_splits)
  then show ?case by (simp add: fold_run_posted_done)
next
  case (Cons x xs)
  have "posted (snd (run_posted c)) = xs @ SetResult f v # ys"
    using Cons.prems(1) by (simp add: run_posted_posted)
  moreover have "f < length (futures (snd (run_posted c)))"
    using Cons.prems(2) by (simp add: run_posted_length)
  ultimately show ?case using Cons.IH by simp
qed

lemma drain_after_on_sub:
  assumes "pending_sub_request c = Some f" and "f < length (futures c)"
  shows "subscribe_for_agent_resume (drain_posted (apply_op OnSub c)) f = Some True"
proof -
  let ?c = "apply_op OnSub c"
  have p: "posted ?c = posted c @ SetResult f (VInt 0) # []"
    using assms by (simp add: on_sub_def)
  have l: "f < length (futures ?c)" using assms by (simp add: on_sub_def)
  have "is_done (drain_posted ?c) f"
    unfolding drain_posted_def p using fold_run_posted_sets[OF p l] by simp
  then show ?thesis by (simp add: subscribe_for_agent_resume_def is_done_def)
qed

lemma subscribe_for_agent_new:
  assumes "a \<in> agents c" and "map_of (additional_subscriptions c) t = None"
  shows "fst (subscribe_for_agent c a t qos cls rc)
           = (if rc = MQTT_ERR_SUCCESS then Await (length (futures c)) else Return False)"
    and "broker_calls (snd (subscribe_for_agent c a t qos cls rc)) = broker_calls c @ [Subscribe t qos]"
    and "additional_subscriptions (snd (subscribe_for_agent c a t qos cls rc))
           = dict_set (additional_subscriptions c) t {a}"
    and "agents (snd (subscribe_for_agent c a t qos cls rc)) = agents c"
    and "pending_sub_request (snd (subscribe_for_agent c a t qos cls rc)) = Some (length (futures c))"
    and "length (futures c) < length (futures (snd (subscribe_for_agent c a t qos cls rc)))"
  using assms
  by (cases cls; simp add: subscribe_for_agent_def Let_def)+

lemma subscribe_for_agent_old:
  assumes "a \<in> agents c" and "map_of (additional_subscriptions c) t = Some A"
  shows "fst (subscribe_for_agent c a t qos cls rc) = Return True"
    and "broker_calls (snd (subscribe_for_agent c a t qos cls rc)) = broker_calls c"
    and "additional_subscriptions (snd (subscribe_for_agent c a t qos cls rc))
           = dict_set (additional_subscriptions c) t (insert a A)"
    and "agents (snd (subscribe_for_agent c a t qos cls rc)) = agents c"
  using assms
  by (cases cls; simp add: subscribe_for_agent_def Let_def)+

lemma subscribe_and_wait_new:
  assumes "a \<in> agents c" and "map_of (additional_subscriptions c) t = None"
    and "subscribe_and_wait c a t qos cls rc = (r, c')"
  shows "r = Return (rc = MQTT_ERR_SUCCESS)"
    and "broker_calls c' = broker_calls c @ [Subscribe t qos]"
    and "additional_subscriptions c' = dict_set (additional_subscriptions c) t {a}"
    and "agents c' = agents c"
proof -
  obtain r1 c1 where s: "subscribe_for_agent c a t qos cls rc = (r1, c1)" by force
  note n = subscribe_for_agent_new [OF assms(1,2), of qos cls rc, unfolded s fst_conv snd_conv]
  let ?c2 = "drain_posted (apply_op OnSub c1)"
  have w: "subscribe_and_wait c a t qos cls rc
             = (case r1 of Await f \<Rightarrow>
                   (case subscribe_for_agent_resume ?c2 f of
                      Some b \<Rightarrow> (Return b, ?c2) | None \<Rightarrow> (Await f, ?c2))
                | _ \<Rightarrow> (r1, c1))"
    unfolding subscribe_and_wait_def s by (simp add: Let_def split: outcome.splits del: apply_op.simps)
  have res: "subscribe_for_agent_resume ?c2 (length (futures c)) = Some True"
    by (rule drain_after_on_sub [OF n(5) n(6)])
  have e: "(r, c') = (Return (rc = MQTT_ERR_SUCCESS), if rc = MQTT_ERR_SUCCESS then ?c2 else c1)"
    unfolding assms(3)[symmetric] w n(1) using res by (simp del: apply_op.simps)
  have k: "broker_calls ?c2 = broker_calls c1" "additional_subscriptions ?c2 = additional_subscriptions c1"
    "agents ?c2 = agents c1"
    unfolding drain_posted_keeps on_sub_keeps by (rule refl)+
  show "r = Return (rc = MQTT_ERR_SUCCESS)" using e by simp
  have c': "c' = (if rc = MQTT_ERR_SUCCESS then ?c2 else c1)" using e by simp
  show "broker_calls c' = broker_calls c @ [Subscribe t qos]" unfolding c' using k(1) n(2) by simp
  show "additional_subscriptions c' = dict_set (additional_subscriptions c) t {a}"
    unfolding c' using k(2) n(3) by simp
  show "agents c' = agents c" unfolding c' using k(3) n(4) by simp
qed

lemma subscribe_and_wait_old:
  assumes "a \<in> agents c" and "map_of (additional_subscriptions c) t = Some A"
    and "subscribe_and_wait c a t qos cls rc = (r, c')"
  shows "r = Return True"
    and "broker_calls c' = broker_calls c"
    and "additional_subscriptions c' = dict_set (additional_subscriptions c) t (insert a A)"
    and "agents c' = agents c"
proof -
  obtain r1 c1 where s: "subscribe_for_agent c a t qos cls rc = (r1, c1)" by force
  note n = subscribe_for_agent_old [OF assms(1,2), of qos cls rc, unfolded s fst_conv snd_conv]
  have "subscribe_and_wait c a t qos cls rc = (Return True, c1)"
    unfolding subscribe_and_wait_def s n(1) by simp
  then have e: "r = Return True" "c' = c1" using assms(3) by simp_all
  show "r = Return True" by (rule e(1))
  show "broker_calls c' = broker_calls c" unfolding e(2) by (rule n(2))
  show "additional_subscriptions c' = dict_set (additional_subscriptions c) t (insert a A)"
    unfolding e(2) by (rule n(3))
  show "agents c' = agents c" unfolding e(2) by (rule n(4))
qed

lemma subscribe_rest:
  assumes "map_of (additional_subscriptions c) t = Some A" and "key_once c t"
    and "fst ` set calls \<subseteq> agents c"
    and "subscribe_in_sequence c t calls = (rs, c')"
  shows "rs = replicate (length calls) (Return True) \<and> broker_calls c' = broker_calls c
       \<and> map_of (additional_subscriptions c') t = Some (A \<union> fst ` set calls) \<and> key_once c' t"
  using assms
proof (induction calls arbitrary: c A rs c')
  case Nil
  then show ?case by simp
next
  case (Cons x calls)
  obtain a qos cls rc where x: "x = (a, qos, cls, rc)" by (cases x) auto
  obtain r c1 where s: "subscribe_and_wait c a t qos cls rc = (r, c1)" by force
  obtain rs1 c2 where q: "subscribe_in_sequence c1 t calls = (rs1, c2)" by force
  have a: "a \<in> agents c" using Cons.prems(3) x by simp
  note o = subscribe_and_wait_old [OF a Cons.prems(1) s]
  have m1: "map_of (additional_subscriptions c1) t = Some (insert a A)"
    by (simp add: o(3) map_of_dict_set)
  have "(t, A) \<in> set (additional_subscriptions c)"
    using Cons.prems(1) by (rule map_of_SomeD)
  then have "t \<in> fst ` set (additional_subscriptions c)"
    by (rule rev_image_eqI) simp
  then have k1: "key_once c1 t"
    using Cons.prems(2) by (simp add: key_once_def o(3) count_keys_dict_set)
  have g1: "fst ` set calls \<subseteq> agents c1" using Cons.prems(3) o(4) by simp
  note ih = Cons.IH [OF m1 k1 g1 q]
  have e: "rs = r # rs1" "c' = c2" using Cons.prems(4) unfolding x by (simp_all add: s q)
  have u: "insert a A \<union> fst ` set calls = A \<union> fst ` set (x # calls)" unfolding x by auto
  show ?case unfolding e u[symmetric] using ih o(1,2) by simp
qed

lemma map_of_dict_pop: "map_of (dict_pop d k) t = (if t = k then None else map_of d t)"
  by (induction d) (auto simp: dict_pop_def)

lemma count_keys_dict_pop:
  "count_list (map fst (dict_pop d k)) t = (if t = k then 0 else count_list (map fst d) t)"
  by (induction d) (auto simp: dict_pop_def)

lemma fold_unsubscribe_calls:
  "broker_calls (fold unsubscribe_empty es c) = broker_calls c @ map Unsubscribe es"
  by (induction es arbitrary: c) (simp_all add: unsubscribe_empty_def)

lemma fold_unsubscribe_map_of:
  "map_of (additional_subscriptions (fold unsubscribe_empty es c)) t
     = (if t \<in> set es then None else map_of (additional_subscriptions c) t)"
  by (induction es arbitrary: c) (simp_all add: unsubscribe_empty_def map_of_dict_pop)

lemma fold_unsubscribe_count_keys:
  "count_list (map fst (additional_subscriptions (fold unsubscribe_empty es c))) t
     = (if t \<in> set es then 0 else count_list (map fst (additional_subscriptions c)) t)"
  by (induction es arbitrary: c) (simp_all add: unsubscribe_empty_def count_keys_dict_pop)

lemma count_list_map_Unsubscribe: "count_list (map Unsubscribe es) (Unsubscribe t) = count_list es t"
  by (induction es) simp_all

lemma count_filtered_key:
  assumes "count_list (map fst d) t = 1" and "map_of d t = Some A"
  shows "count_list (map fst (filter P d)) t = (if P (t, A) then 1 else 0)"
  using assms
proof (induction d)
  case Nil
  then show ?case by simp
next
  case (Cons x d)
  obtain k v where x: "x = (k, v)" by (cases x) auto
  show ?case
  proof (cases "k = t")
    case True
    then have z: "count_list (map fst d) t = 0" and v: "v = A"
      using Cons.prems x by simp_all
    have "t \<notin> set (map fst d)" using z count_list_0_iff [of "map fst d" t] by simp
    then have "t \<notin> set (map fst (filter P d))" by auto
    then have "count_list (map fst (filter P d)) t = 0" by (rule count_notin)
    then show ?thesis using True x v by simp
  next
    case False
    then show ?thesis using Cons x by simp
  qed
qed

lemma keys_map_remove: "map fst (map (\<lambda>(s, A). (s, A - {a})) d) = map fst d"
  by (induction d) auto

lemma map_of_map_remove:
  "map_of (map (\<lambda>(s, A). (s, A - {a})) d) t = map_option (\<lambda>A. A - {a}) (map_of d t)"
  by (induction d) auto

lemma in_set_empty_subscriptions:
  assumes "map_of d t = Some A" and "count_list (map fst d) t = 1"
  shows "t \<in> set (map fst (filter (\<lambda>(s, A). A = {}) d)) \<longleftrightarrow> A = {}"
proof -
  have "count_list (map fst (filter (\<lambda>(s, A). A = {}) d)) t = (if A = {} then 1 else 0)"
    using count_filtered_key [OF assms(2) assms(1), of "\<lambda>(s, A). A = {}"] by simp
  moreover have "t \<in> set (map fst (filter (\<lambda>(s, A). A = {}) d))
      \<longleftrightarrow> count_list (map fst (filter (\<lambda>(s, A). A = {}) d)) t \<noteq> 0"
    using count_list_0_iff [of "map fst (filter (\<lambda>(s, A). A = {}) d)" t] by auto
  ultimately show ?thesis by (simp del: set_map)
qed

lemma deregister_agent_topic:
  assumes "map_of (additional_subscriptions c) t = Some A" and "key_once c t"
  shows "unsubscribe_calls (deregister_agent c a) t
           = unsubscribe_calls c t + (if A - {a} = {} then 1 else 0)"
    and "A - {a} \<noteq> {} \<Longrightarrow> map_of (additional_subscriptions (deregister_agent c a)) t = Some (A - {a})"
    and "A - {a} \<noteq> {} \<Longrightarrow> key_once (deregister_agent c a) t"
proof -
  let ?c1 = "super_deregister_agent c a"
  let ?subs = "map (\<lambda>(s, A). (s, A - {a})) (additional_subscriptions ?c1)"
  let ?es = "map fst (filter (\<lambda>(s, A). A = {}) ?subs)"
  let ?c2 = "?c1\<lparr>additional_subscriptions := ?subs\<rparr>"
  have d: "deregister_agent c a = fold unsubscribe_empty ?es ?c2"
    by (simp add: deregister_agent_def Let_def)
  have s1: "additional_subscriptions ?c1 = additional_subscriptions c"
    "broker_calls ?c1 = broker_calls c"
    by (simp_all add: super_deregister_agent_def)
  have m: "map_of ?subs t = Some (A - {a})"
    unfolding s1 map_of_map_remove assms(1) by simp
  have k: "count_list (map fst ?subs) t = 1"
    unfolding s1 keys_map_remove using assms(2) by (simp add: key_once_def)
  have cnt: "count_list ?es t = (if A - {a} = {} then 1 else 0)"
    using count_filtered_key [OF k m, of "\<lambda>(s, A). A = {}"] by simp
  have mem: "t \<in> set ?es \<longleftrightarrow> A - {a} = {}"
    by (rule in_set_empty_subscriptions [OF m k])
  show "unsubscribe_calls (deregister_agent c a) t
           = unsubscribe_calls c t + (if A - {a} = {} then 1 else 0)"
    unfolding unsubscribe_calls_def d fold_unsubscribe_calls count_list_append
      count_list_map_Unsubscribe cnt
    by (simp add: super_deregister_agent_def)
  show "map_of (additional_subscriptions (deregister_agent c a)) t = Some (A - {a})"
    if "A - {a} \<noteq> {}"
    unfolding d fold_unsubscribe_map_of using that mem m by simp
  show "key_once (deregister_agent c a) t" if "A - {a} \<noteq> {}"
    unfolding key_once_def d fold_unsubscribe_count_keys using that mem k by simp
qed

lemma deregister_in_sequence_Cons:
  "deregister_in_sequence c (a # ds) = deregister_in_sequence (deregister_agent c a) ds"
  by (simp add: deregister_in_sequence_def)

lemma deregister_all:
  assumes "map_of (additional_subscriptions c) t = Some (set ds)" and "key_once c t"
    and "distinct ds" and "ds \<noteq> []"
  shows "unsubscribe_calls (deregister_in_sequence c ds) t = unsubscribe_calls c t + 1
       \<and> (\<forall>k < length ds. unsubscribe_calls (deregister_in_sequence c (take k ds)) t
              = unsubscribe_calls c t)"
  using assms
proof (induction ds arbitrary: c)
  case Nil
  then show ?case by simp
next
  case (Cons a ds)
  let ?c1 = "deregister_agent c a"
  have rem: "set (a # ds) - {a} = set ds" using Cons.prems(3) by auto
  note d = deregister_agent_topic [OF Cons.prems(1,2), of a, unfolded rem]
  show ?case
  proof (cases "ds = []")
    case True
    then show ?thesis using d(1)
      by (simp add: deregister_in_sequence_def)
  next
    case False
    then have ne: "set ds \<noteq> {}" by simp
    have dist: "distinct ds" using Cons.prems(3) by simp
    note ih = Cons.IH [OF d(2) [OF ne] d(3) [OF ne] dist False]
    have same: "unsubscribe_calls ?c1 t = unsubscribe_calls c t" using d(1) ne by simp
    have all: "unsubscribe_calls (deregister_in_sequence c (a # ds)) t = unsubscribe_calls c t + 1"
      unfolding deregister_in_sequence_Cons using ih same by simp
    have pre: "unsubscribe_calls (deregister_in_sequence c (take k (a # ds))) t = unsubscribe_calls c t"
      if "k < length (a # ds)" for k
    proof (cases k)
      case 0
      then show ?thesis by (simp add: deregister_in_sequence_def)
    next
      case (Suc j)
      then have "j < length ds" using that by simp
      then show ?thesis unfolding Suc using ih same by (simp add: deregister_in_sequence_Cons)
    qed
    show ?thesis using all pre by blast
  qed
qed

text \<open>
  C2. Agents that are registered subscribe one after the other to a topic \<open>t\<close> that has
  no subscribers, each call running to its end. Then one call is made on the broker
  client, the \<open>subscribe\<close> of the first agent's call; the first call returns whether
  the client accepted it, and every later call returns \<open>True\<close>. When afterwards these
  agents deregister, in any order, no \<open>unsubscribe\<close> for \<open>t\<close> is made while one of
  them is left, and exactly one has been made when all have deregistered.
\<close>

theorem subscription_reference_counting:
  assumes "t \<notin> dict_keys (additional_subscriptions c)"
    and "calls = (a, qos, cls, rc) # rest"
    and "fst ` set calls \<subseteq> agents c"
    and "subscribe_in_sequence c t calls = (rs, c')"
    and "set ds = fst ` set calls" and "distinct ds"
  shows "broker_calls c' = broker_calls c @ [Subscribe t qos]
       \<and> rs = Return (rc = MQTT_ERR_SUCCESS) # replicate (length rest) (Return True)
       \<and> (\<forall>k < length ds. unsubscribe_calls (deregister_in_sequence c' (take k ds)) t
              = unsubscribe_calls c' t)
       \<and> unsubscribe_calls (deregister_in_sequence c' ds) t = unsubscribe_calls c' t + 1"
proof -
  obtain r c1 where s: "subscribe_and_wait c a t qos cls rc = (r, c1)" by force
  obtain rs1 c2 where q: "subscribe_in_sequence c1 t rest = (rs1, c2)" by force
  have e: "rs = r # rs1" "c' = c2" using assms(4) unfolding assms(2) by (simp_all add: s q)
  have a: "a \<in> agents c" using assms(3) unfolding assms(2) by simp
  have none: "map_of (additional_subscriptions c) t = None"
    using assms(1) by (simp add: map_of_None_dict_keys)
  note n = subscribe_and_wait_new [OF a none s]
  have m1: "map_of (additional_subscriptions c1) t = Some {a}"
    by (simp add: n(3) map_of_dict_set)
  have "t \<notin> fst ` set (additional_subscriptions c)"
    using assms(1) by (simp add: dict_keys_def)
  then have k1: "key_once c1 t" by (simp add: key_once_def n(3) count_keys_dict_set)
  have g1: "fst ` set rest \<subseteq> agents c1" using assms(3) unfolding assms(2) n(4) by simp
  note r = subscribe_rest [OF m1 k1 g1 q]
  have sub: "map_of (additional_subscriptions c') t = Some (set ds)"
    unfolding e assms(5) assms(2) using r by simp
  have once: "key_once c' t" unfolding e using r by simp
  have ne: "ds \<noteq> []" using assms(5) unfolding assms(2) by auto
  note d = deregister_all [OF sub once assms(6) ne]
  have calls: "broker_calls c' = broker_calls c @ [Subscribe t qos]"
    unfolding e using r n(2) by simp
  have res: "rs = Return (rc = MQTT_ERR_SUCCESS) # replicate (length rest) (Return True)"
    unfolding e using r n(1) by simp
  show ?thesis using calls res d by blast
qed

theorem subscription_reference_counting_witness:
  "broker_calls (snd (subscribe_in_sequence example_container2 ''x/y'' two_calls))
      = [Subscribe ''x/y'' 0]
   \<and> fst (subscribe_in_sequence example_container2 ''x/y'' two_calls) = [Return True, Return True]
   \<and> unsubscribe_calls (deregister_in_sequence
        (snd (subscribe_in_sequence example_container2 ''x/y'' two_calls)) [''agent1'']) ''x/y'' = 0
   \<and> unsubscribe_calls (deregister_in_sequence
        (snd (subscribe_in_sequence example_container2 ''x/y'' two_calls)) [''agent1'', ''agent0''])
        ''x/y'' = 1"
proof -
  let ?c = example_container2
  let ?X = "subscribe_in_sequence ?c ''x/y'' two_calls"
  have c: "agents ?c = {''agent0'', ''agent1''}" "additional_subscriptions ?c = []"
    "broker_calls ?c = []"
    by (auto simp: example_container2_def example_container_def register_agent_def init_container_def)
  have h1: "''x/y'' \<notin> dict_keys (additional_subscriptions ?c)" by (simp add: c dict_keys_def)
  have h2: "two_calls = (''agent0'', 0, None, 0) # [(''agent1'', 1, None, 0)]"
    by (simp add: two_calls_def)
  have h3: "fst ` set two_calls \<subseteq> agents ?c" by (simp add: c two_calls_def)
  have h4: "?X = (fst ?X, snd ?X)" by simp
  have h5: "set [''agent1'', ''agent0''] = fst ` set two_calls" by (auto simp: two_calls_def)
  have h6: "distinct [''agent1'', ''agent0'']" by simp
  note t = subscription_reference_counting [OF h1 h2 h3 h4 h5 h6]
  have b: "broker_calls (snd ?X) = [Subscribe ''x/y'' 0]" using t by (simp add: c)
  have u: "unsubscribe_calls (snd ?X) ''x/y'' = 0" by (simp add: unsubscribe_calls_def b)
  have r: "fst ?X = [Return True, Return True]" using t by (simp add: MQTT_ERR_SUCCESS_def)
  have "1 < length [''agent1'', ''agent0'']" by simp
  with t have "unsubscribe_calls (deregister_in_sequence (snd ?X) (take 1 [''agent1'', ''agent0'']))
      ''x/y'' = unsubscribe_calls (snd ?X) ''x/y''"
    by blast
  then have p: "unsubscribe_calls (deregister_in_sequence (snd ?X) [''agent1'']) ''x/y'' = 0"
    using u by simp
  have l: "unsubscribe_calls (deregister_in_sequence (snd ?X) [''agent1'', ''agent0'']) ''x/y'' = 1"
    using t u by simp
  show ?thesis using b r p l by blast
qed

end
